theory Spec2Isabelle
  imports Complex_Main
begin

section \<open>Values, numbers and arrays of the host language\<close>

text \<open>
  The module \<^verbatim>\<open>src/caseGenerator/enumerateCases.js\<close> is generic in the sample values
  (\<^verbatim>\<open>any\<close>) and in the case type \<^verbatim>\<open>C\<close>.  A sample value is either \<^verbatim>\<open>undefined\<close> or some
  defined value of an arbitrary type \<open>'a\<close>; the distinction matters because
  \<^verbatim>\<open>validCases[0]\<close> on an empty array evaluates to \<^verbatim>\<open>undefined\<close> instead of raising.
\<close>

datatype 'a jsval = Undefined | Defined 'a

text \<open>
  A JavaScript number, as far as the module looks at one: it is compared with \<^verbatim>\<open>0\<close>,
  compared with an array index by \<^verbatim>\<open>===\<close>, and used as a property key of an array.  All
  three are exact on doubles, so a finite number is represented by the real it denotes
  (\<^verbatim>\<open>-0\<close> and \<^verbatim>\<open>0\<close> are the same key, are \<^verbatim>\<open>===\<close> and are both not below zero).
\<close>

datatype jsnumber = Num real | PosInfinity | NegInfinity | NaN

text \<open>\<^verbatim>\<open>n < 0\<close> for a number \<^verbatim>\<open>n\<close>.\<close>

fun lt_zero :: "jsnumber \<Rightarrow> bool" where
  "lt_zero (Num r) = (r < 0)"
| "lt_zero NegInfinity = True"
| "lt_zero PosInfinity = False"
| "lt_zero NaN = False"

text \<open>
  \<^verbatim>\<open>xs[n]\<close> for an array \<^verbatim>\<open>xs\<close> and a number \<^verbatim>\<open>n\<close>: the element when \<^verbatim>\<open>n\<close> is an integer
  with \<^verbatim>\<open>0 <= n < xs.length\<close>, and \<^verbatim>\<open>undefined\<close> (here \<open>None\<close>) for every other number;
  nothing is raised.
\<close>

fun element :: "'x list \<Rightarrow> jsnumber \<Rightarrow> 'x option" where
  "element xs (Num r) =
     (if 0 \<le> r \<and> r < real (length xs) \<and> r = of_int \<lfloor>r\<rfloor>
      then Some (xs ! nat \<lfloor>r\<rfloor>) else None)"
| "element xs PosInfinity = None"
| "element xs NegInfinity = None"
| "element xs NaN = None"

text \<open>\<^verbatim>\<open>xs[0]\<close> for an array of sample values: \<^verbatim>\<open>undefined\<close> when the array is empty.\<close>

definition first :: "'a jsval list \<Rightarrow> 'a jsval" where
  "first xs = (case xs of [] \<Rightarrow> Undefined | x # _ \<Rightarrow> x)"

text \<open>
  \<^verbatim>\<open>i === n\<close> for the index \<^verbatim>\<open>i\<close> handed to a \<^verbatim>\<open>reduce\<close> callback and the optional
  parameter \<^verbatim>\<open>n\<close> (\<open>None\<close> when the caller passed no number).
\<close>

definition strict_eq :: "nat \<Rightarrow> jsnumber option \<Rightarrow> bool" where
  "strict_eq i n = (n = Some (Num (real i)))"

text \<open>The only error the module can raise: a method call on \<^verbatim>\<open>undefined\<close>.\<close>

datatype error = TypeError

section \<open>The data model\<close>

text \<open>
  \<^verbatim>\<open>ArgConfig\<close> (declared in \<^verbatim>\<open>index.flow\<close>, used as in the examples of the module's
  comments).  \<open>validCases\<close> is an array; \<open>invalidCases\<close> may be missing, which the module
  checks for; \<open>name\<close> and \<open>optional\<close> may be missing and are never read here.
\<close>

record 'a ArgConfig =
  name :: "string option"
  validCases :: "'a jsval list"
  invalidCases :: "'a jsval list option"
  optional :: "bool option"

text \<open>
  \<^verbatim>\<open>AppendMethod\<close>: the caller's strategy, a pure function from the existing case list and
  one sample value to the extended case list.
\<close>

type_synonym ('c, 'a) AppendMethod = "'c list \<Rightarrow> 'a jsval \<Rightarrow> 'c list"

text \<open>
  The calls made to the strategy are observable: every function below threads the list
  of the argument pairs the strategy has been called with so far, oldest first.
\<close>

type_synonym ('c, 'a) calls = "('c list \<times> 'a jsval) list"

definition invoke ::
  "('c, 'a) AppendMethod \<Rightarrow> 'c list \<Rightarrow> 'a jsval \<Rightarrow> ('c, 'a) calls \<Rightarrow> 'c list \<times> ('c, 'a) calls" where
  "invoke appendMethod cases v trace = (appendMethod cases v, trace @ [(cases, v)])"

section \<open>appendArgCases\<close>

text \<open>
  \<^verbatim>\<open>nextArgCases.reduce((appendedCases, nextArgCase) =>
       appendedCases.concat(appendMethod(cases, nextArgCase)), [])\<close>
\<close>

definition appendArgCases ::
  "('c, 'a) AppendMethod \<Rightarrow> 'c list \<Rightarrow> 'a jsval list \<Rightarrow> ('c, 'a) calls \<Rightarrow> 'c list \<times> ('c, 'a) calls" where
  "appendArgCases appendMethod cases nextArgCases trace =
     foldl (\<lambda>(appendedCases, trace') nextArgCase.
              let (newCases, trace'') = invoke appendMethod cases nextArgCase trace'
              in (appendedCases @ newCases, trace''))
           ([], trace) nextArgCases"

section \<open>enumerateCases\<close>

text \<open>
  \<^verbatim>\<open>Array.prototype.reduce\<close> with an initial value and a callback that receives the
  accumulator, the element and its index, and that may raise: the first error ends the
  loop.
\<close>

fun reduce :: "('s \<Rightarrow> 'x \<Rightarrow> nat \<Rightarrow> error + 's) \<Rightarrow> 's \<Rightarrow> nat \<Rightarrow> 'x list \<Rightarrow> error + 's" where
  "reduce f acc i [] = Inr acc"
| "reduce f acc i (x # xs) =
     (case f acc x i of Inl e \<Rightarrow> Inl e | Inr acc' \<Rightarrow> reduce f acc' (Suc i) xs)"

text \<open>
  The callback of the \<^verbatim>\<open>reduce\<close> in \<^verbatim>\<open>enumerateCases\<close>, with the variables it closes over
  as parameters.  \<^verbatim>\<open>multiAppend(processedCases, invalidCases)\<close> calls
  \<^verbatim>\<open>invalidCases.reduce\<close>, which raises when \<^verbatim>\<open>invalidCases\<close> is \<^verbatim>\<open>undefined\<close>.
\<close>

definition callback ::
  "('c, 'a) AppendMethod \<Rightarrow> jsnumber option \<Rightarrow> 'a jsval list option \<Rightarrow>
   'c list \<times> ('c, 'a) calls \<Rightarrow> 'a ArgConfig \<Rightarrow> nat \<Rightarrow> error + 'c list \<times> ('c, 'a) calls" where
  "callback appendMethod invalidArgConfigIndex invalidCases' st conf i =
     (case st of (processedCases, trace) \<Rightarrow>
        if strict_eq i invalidArgConfigIndex then
          (case invalidCases' of
             None \<Rightarrow> Inl TypeError
           | Some cs \<Rightarrow> Inr (appendArgCases appendMethod processedCases cs trace))
        else if (case invalidArgConfigIndex of None \<Rightarrow> True | Some n \<Rightarrow> lt_zero n) then
          Inr (appendArgCases appendMethod processedCases (validCases conf) trace)
        else
          Inr (invoke appendMethod processedCases (first (validCases conf)) trace))"

definition enumerateCases ::
  "('c, 'a) AppendMethod \<Rightarrow> 'a ArgConfig list \<Rightarrow> jsnumber option \<Rightarrow> ('c, 'a) calls \<Rightarrow>
   error + 'c list \<times> ('c, 'a) calls" where
  "enumerateCases appendMethod argsConfig invalidArgConfigIndex trace =
     (let invalidArgConf =
            (case invalidArgConfigIndex of Some n \<Rightarrow> element argsConfig n | None \<Rightarrow> None);
          invalidCases' =
            (case invalidArgConf of Some conf \<Rightarrow> invalidCases conf | None \<Rightarrow> None)
      in if invalidArgConf \<noteq> None \<and> (case invalidCases' of None \<Rightarrow> True | Some cs \<Rightarrow> cs = [])
         then Inr ([], trace)
         else reduce (callback appendMethod invalidArgConfigIndex invalidCases') ([], trace) 0 argsConfig)"

section \<open>The strategy and the values of the documented scenarios\<close>

text \<open>
  Modelled from the spec: the simple positional strategy of the scenarios.  Strategies are
  supplied by the caller and are not part of this module; the scenarios give this one as
  \<^verbatim>\<open>extend([], v) = [[v]]\<close>, \<^verbatim>\<open>extend(cases, v) = cases.map(c => c.concat(v))\<close>.
\<close>

definition simple_positional :: "('a jsval list, 'a) AppendMethod" where
  "simple_positional cases v = (if cases = [] then [[v]] else map (\<lambda>c. c @ [v]) cases)"

text \<open>The literals the scenarios use as sample values: booleans and integers.\<close>

datatype literal = Boolean bool | Number int

text \<open>
  The argument lists of the examples in the comment of \<^verbatim>\<open>enumerateCases\<close>: the first
  example (all arguments valid) and the third (the first argument invalid).
\<close>

definition all_valid_example :: "literal ArgConfig list" where
  "all_valid_example =
     [\<lparr>name = Some ''a'', validCases = [Defined (Boolean True)],
       invalidCases = Some [Defined (Boolean False)], optional = None\<rparr>,
      \<lparr>name = Some ''b'', validCases = [Defined (Number 1)],
       invalidCases = Some [Defined (Number 2)], optional = None\<rparr>]"

definition pinning_example :: "literal ArgConfig list" where
  "pinning_example =
     [\<lparr>name = Some ''a'', validCases = [Defined (Boolean True)],
       invalidCases = Some [Defined (Boolean False), Defined (Number 0)], optional = None\<rparr>,
      \<lparr>name = Some ''b'', validCases = [Defined (Number 1), Defined (Number 2)],
       invalidCases = Some [Defined (Number 3)], optional = None\<rparr>]"

text \<open>
  An argument list outside the documented examples: the third argument has no valid
  sample and no invalid one.
\<close>

definition unsampled_example :: "literal ArgConfig list" where
  "unsampled_example =
     [\<lparr>name = Some ''a'', validCases = [Defined (Boolean True)],
       invalidCases = Some [Defined (Boolean False)], optional = None\<rparr>,
      \<lparr>name = Some ''b'', validCases = [Defined (Number 1), Defined (Number 2)],
       invalidCases = Some [Defined (Number 3)], optional = None\<rparr>,
      \<lparr>name = Some ''c'', validCases = [], invalidCases = None, optional = None\<rparr>]"

section \<open>Auxiliary facts\<close>

subsection \<open>Numbers as array indices\<close>

text \<open>
  The numbers that resolve to an element of an array are exactly the indices
  \<open>0, \<dots>, length xs - 1\<close>; the theorems below therefore write a valid index as
  \<open>Num (real k)\<close> with \<open>k < length xs\<close>.
\<close>

lemma element_Some_iff:
  "element xs n = Some x \<longleftrightarrow> (\<exists>k<length xs. n = Num (real k) \<and> x = xs ! k)"
proof (cases n)
  case (Num r)
  show ?thesis
  proof
    assume "element xs n = Some x"
    with Num have r: "0 \<le> r" "r < real (length xs)" "r = of_int \<lfloor>r\<rfloor>"
      and x: "x = xs ! nat \<lfloor>r\<rfloor>"
      by (auto split: if_splits)
    from r have "r = real (nat \<lfloor>r\<rfloor>)" by simp
    moreover from r have "nat \<lfloor>r\<rfloor> < length xs" by linarith
    ultimately show "\<exists>k<length xs. n = Num (real k) \<and> x = xs ! k"
      using Num x by blast
  next
    assume "\<exists>k<length xs. n = Num (real k) \<and> x = xs ! k"
    then show "element xs n = Some x" by auto
  qed
qed auto

lemma element_lt_zero: "lt_zero n \<Longrightarrow> element xs n = None"
  by (cases n) auto

lemma element_Nil: "element [] n = None"
  by (cases n) auto

lemma strict_eq_index: "strict_eq j (Some (Num (real k))) \<longleftrightarrow> j = k"
  by (auto simp: strict_eq_def)

lemma strict_eq_absent: "\<not> strict_eq j None"
  by (simp add: strict_eq_def)

lemma strict_eq_lt_zero: "lt_zero n \<Longrightarrow> \<not> strict_eq j (Some n)"
  by (auto simp: strict_eq_def)

lemma strict_eq_out_of_range:
  "element xs n = None \<Longrightarrow> j < length xs \<Longrightarrow> \<not> strict_eq j (Some n)"
  by (auto simp: strict_eq_def)

subsection \<open>The loops\<close>

lemma appendArgCases_fold:
  "foldl (\<lambda>(appendedCases, trace') nextArgCase.
            let (newCases, trace'') = invoke appendMethod cases nextArgCase trace'
            in (appendedCases @ newCases, trace''))
         (acc, trace) nextArgCases
   = (acc @ concat (map (appendMethod cases) nextArgCases),
      trace @ map (Pair cases) nextArgCases)"
  by (induction nextArgCases arbitrary: acc trace) (simp_all add: invoke_def)

lemma appendArgCases_concat:
  "appendArgCases appendMethod cases nextArgCases trace
   = (concat (map (appendMethod cases) nextArgCases), trace @ map (Pair cases) nextArgCases)"
  unfolding appendArgCases_def appendArgCases_fold by simp

text \<open>A \<^verbatim>\<open>reduce\<close> whose callback never raises is a left fold.\<close>

lemma reduce_foldl_indexed:
  "(\<And>st j x. (j, x) \<in> set (enumerate i xs) \<Longrightarrow> f st x j = Inr (g st (j, x)))
   \<Longrightarrow> reduce f st i xs = Inr (foldl g st (enumerate i xs))"
  by (induction xs arbitrary: st i) simp_all

lemma reduce_foldl:
  "(\<And>st j x. (j, x) \<in> set (enumerate i xs) \<Longrightarrow> f st x j = Inr (g st x))
   \<Longrightarrow> reduce f st i xs = Inr (foldl g st xs)"
  by (induction xs arbitrary: st i) simp_all

lemma reduce_no_error:
  "(\<And>st j x. (j, x) \<in> set (enumerate i xs) \<Longrightarrow> \<exists>st'. f st x j = Inr st')
   \<Longrightarrow> \<exists>r. reduce f st i xs = Inr r"
proof (induction xs arbitrary: st i)
  case Nil
  show ?case by simp
next
  case (Cons x xs)
  obtain st' where st': "f st x i = Inr st'"
    using Cons.prems [of i x st] by auto
  have "\<exists>r. reduce f st' (Suc i) xs = Inr r"
    by (rule Cons.IH) (rule Cons.prems, simp)
  with st' show ?case by simp
qed

lemma enumerate_split:
  assumes "j < length xs"
  shows "enumerate 0 xs
         = enumerate 0 (take j xs) @ (j, xs ! j) # enumerate (Suc j) (drop (Suc j) xs)"
proof -
  have "enumerate 0 xs = enumerate 0 (take j xs @ xs ! j # drop (Suc j) xs)"
    using assms by (simp add: id_take_nth_drop [symmetric])
  also have "\<dots> = enumerate 0 (take j xs) @ (j, xs ! j) # enumerate (Suc j) (drop (Suc j) xs)"
    using assms by (simp add: enumerate_append_eq)
  finally show ?thesis .
qed

subsection \<open>The callback under each plan\<close>

lemma guard_passes:
  "k < length configs \<Longrightarrow> invalidCases (configs ! k) = Some faulted \<Longrightarrow> faulted \<noteq> [] \<Longrightarrow>
   enumerateCases strategy configs (Some (Num (real k))) trace
   = reduce (callback strategy (Some (Num (real k))) (Some faulted)) ([], trace) 0 configs"
  by (simp add: enumerateCases_def)

lemma callback_single_faulted:
  "callback strategy (Some (Num (real k))) (Some faulted) st conf j
   = Inr ((\<lambda>(accumulated, tr) (j, conf).
            if j = k then appendArgCases strategy accumulated faulted tr
            else invoke strategy accumulated (first (validCases conf)) tr) st (j, conf))"
  by (cases st) (simp add: callback_def strict_eq_index)

lemma single_faulted_run:
  assumes "k < length configs"
    and "invalidCases (configs ! k) = Some faulted"
    and "faulted \<noteq> []"
  shows "enumerateCases strategy configs (Some (Num (real k))) trace
         = Inr (foldl (\<lambda>(accumulated, tr) (j, conf).
                         if j = k then appendArgCases strategy accumulated faulted tr
                         else invoke strategy accumulated (first (validCases conf)) tr)
                      ([], trace) (enumerate 0 configs))"
  unfolding guard_passes [OF assms]
  by (rule reduce_foldl_indexed) (rule callback_single_faulted)

lemma callback_all_valid:
  "callback strategy None ics st conf j
   = Inr ((\<lambda>(accumulated, tr) conf.
            appendArgCases strategy accumulated (validCases conf) tr) st conf)"
  by (cases st) (simp add: callback_def strict_eq_absent)

lemma callback_pinned:
  "element configs n = None \<Longrightarrow> \<not> lt_zero n \<Longrightarrow> j < length configs \<Longrightarrow>
   callback strategy (Some n) None st conf j
   = Inr ((\<lambda>(accumulated, tr) conf.
            invoke strategy accumulated (first (validCases conf)) tr) st conf)"
  by (cases st) (simp add: callback_def strict_eq_out_of_range)

lemma callback_negative:
  "lt_zero n \<Longrightarrow> callback strategy (Some n) None = callback strategy None None"
  by (intro ext) (simp add: callback_def strict_eq_lt_zero strict_eq_absent split: prod.splits)

text \<open>Every step of the single-faulted fold only adds calls to the trace.\<close>

lemma step_extends:
  "\<exists>ext. snd ((\<lambda>(accumulated, tr) (j, conf).
                  if j = k then appendArgCases strategy accumulated faulted tr
                  else invoke strategy accumulated (first (validCases conf)) tr) st x)
          = snd st @ ext"
  by (cases st; cases x) (simp add: appendArgCases_concat invoke_def)

lemma fold_extends:
  "\<exists>ext. snd (foldl (\<lambda>(accumulated, tr) (j, conf).
                  if j = k then appendArgCases strategy accumulated faulted tr
                  else invoke strategy accumulated (first (validCases conf)) tr) st xs)
          = snd st @ ext"
proof (induction xs arbitrary: st)
  case Nil
  show ?case by simp
next
  case (Cons x xs)
  let ?step = "\<lambda>(accumulated, tr) (j, conf).
                  if j = k then appendArgCases strategy accumulated faulted tr
                  else invoke strategy accumulated (first (validCases conf)) tr"
  obtain e1 where e1: "snd (?step st x) = snd st @ e1"
    using step_extends [of k strategy faulted st x] by blast
  obtain e2 where e2: "snd (foldl ?step (?step st x) xs) = snd (?step st x) @ e2"
    using Cons.IH [of "?step st x"] by blast
  have "snd (foldl ?step st (x # xs)) = snd st @ (e1 @ e2)"
    using e1 e2 by simp
  then show ?case by blast
qed

subsection \<open>No call of the module raises\<close>

text \<open>
  The \<^verbatim>\<open>TypeError\<close> branch of the callback is never taken: the index can only be
  \<^verbatim>\<open>===\<close> to a slot when it resolves to that slot's configuration, and then the guard has
  already returned unless \<^verbatim>\<open>invalidCases\<close> is a non-empty array.
\<close>

lemma enumerateCases_returns:
  "\<exists>cases trace'. enumerateCases strategy configs faultedIndex trace = Inr (cases, trace')"
proof (cases "\<exists>k<length configs. faultedIndex = Some (Num (real k))")
  case True
  then obtain k where k: "k < length configs" "faultedIndex = Some (Num (real k))"
    by blast
  show ?thesis
  proof (cases "invalidCases (configs ! k)")
    case None
    with k show ?thesis by (simp add: enumerateCases_def)
  next
    case (Some faulted)
    show ?thesis
    proof (cases "faulted = []")
      case True
      with k Some show ?thesis by (simp add: enumerateCases_def)
    next
      case False
      with k Some show ?thesis
        by (cases "foldl (\<lambda>(accumulated, tr) (j, conf).
                         if j = k then appendArgCases strategy accumulated faulted tr
                         else invoke strategy accumulated (first (validCases conf)) tr)
                      ([], trace) (enumerate 0 configs)")
           (simp add: single_faulted_run)
    qed
  qed
next
  case False
  have unresolved:
    "(case faultedIndex of Some n \<Rightarrow> element configs n | None \<Rightarrow> None) = None"
  proof (cases faultedIndex)
    case None
    then show ?thesis by simp
  next
    case (Some n)
    have "element configs n \<noteq> Some x" for x
      using False Some by (auto simp: element_Some_iff)
    then show ?thesis using Some by (cases "element configs n") auto
  qed
  have never: "\<not> strict_eq j faultedIndex" if "j < length configs" for j
    using False that by (auto simp: strict_eq_def)
  have "\<exists>r. reduce (callback strategy faultedIndex None) ([], trace) 0 configs = Inr r"
  proof (rule reduce_no_error)
    fix st :: "'a list \<times> ('a list \<times> 'b jsval) list" and j x
    assume "(j, x) \<in> set (enumerate 0 configs)"
    then have "j < length configs" by (simp add: in_set_enumerate_eq)
    then show "\<exists>st'. callback strategy faultedIndex None st x j = Inr st'"
      using never by (cases st) (simp add: callback_def)
  qed
  then show ?thesis using unresolved by (auto simp: enumerateCases_def)
qed

section \<open>The claims\<close>

subsection \<open>appendArgCases (FanOutExpand)\<close>

text \<open>
  C3.  For every strategy, case list and candidate list, \<^verbatim>\<open>expandAll(strategy)(cases,
  candidates)\<close> is the concatenation, in the order of \<^verbatim>\<open>candidates\<close>, of
  \<^verbatim>\<open>strategy.extend(cases, v)\<close> for each candidate \<^verbatim>\<open>v\<close>, and the strategy is called exactly once
  per candidate, in that order, always with the same \<^verbatim>\<open>cases\<close>.  In particular two candidates
  give \<^verbatim>\<open>extend(cases, v1) ++ extend(cases, v2)\<close>, and no candidate gives the empty list, not
  \<^verbatim>\<open>cases\<close>.
\<close>

theorem appendArgCases_in_order:
  "appendArgCases strategy cases candidates trace
     = (concat (map (strategy cases) candidates), trace @ map (Pair cases) candidates)
   \<and> fst (appendArgCases strategy cases [v1, v2] trace) = strategy cases v1 @ strategy cases v2
   \<and> fst (appendArgCases strategy cases [] trace) = []"
  by (simp add: appendArgCases_concat)

text \<open>The first example of the comment of \<^verbatim>\<open>appendArgCases\<close>, and an empty candidate list.\<close>

theorem appendArgCases_in_order_witness:
  "appendArgCases simple_positional [] [Defined (Number 2), Defined (Number 3)] []
     = ([[Defined (Number 2)], [Defined (Number 3)]],
        [([], Defined (Number 2)), ([], Defined (Number 3))])
   \<and> fst (appendArgCases simple_positional [[Defined (Number 0)]] ([] :: literal jsval list) [])
     = []"
  using appendArgCases_in_order
    [of simple_positional "[]" "[Defined (Number 2), Defined (Number 3)]" "[]"]
    appendArgCases_in_order [of simple_positional "[[Defined (Number 0)]]" "[]" "[]"]
  by (simp add: simple_positional_def)

text \<open>
  C7.  For a strategy that returns one case for a candidate when there are no cases yet, and
  one case per existing case otherwise, \<^verbatim>\<open>expandAll(strategy)(cases, candidates)\<close> has
  \<^verbatim>\<open>len(candidates)\<close> cases when \<^verbatim>\<open>cases\<close> is empty and \<^verbatim>\<open>len(cases) * len(candidates)\<close> cases
  otherwise.
\<close>

theorem appendArgCases_length:
  assumes "\<And>v. length (strategy [] v) = 1"
    and "\<And>c cs v. length (strategy (c # cs) v) = length (c # cs)"
  shows "length (fst (appendArgCases strategy cases candidates trace))
         = (if cases = [] then length candidates else length cases * length candidates)"
proof -
  have "length (strategy cases v) = (if cases = [] then 1 else length cases)" for v
    using assms by (cases cases) simp_all
  then have "length (concat (map (strategy cases) candidates))
        = (if cases = [] then length candidates else length cases * length candidates)"
    by (induction candidates) (simp_all add: length_concat)
  then show ?thesis by (simp add: appendArgCases_concat)
qed

theorem appendArgCases_length_witness:
  "(\<forall>v :: literal jsval. length (simple_positional [] v) = 1)
   \<and> (\<forall>c cs. \<forall>v :: literal jsval. length (simple_positional (c # cs) v) = length (c # cs))
   \<and> length (fst (appendArgCases simple_positional [[Defined (Number 0)], [Defined (Number 1)]]
                 [Defined (Number 2), Defined (Number 3), Defined (Boolean True)] [])) = 2 * 3
   \<and> length (fst (appendArgCases simple_positional []
                 [Defined (Number 2), Defined (Number 3), Defined (Boolean True)] [])) = 3"
proof -
  have empty: "length (simple_positional [] v) = 1" for v :: "literal jsval"
    by (simp add: simple_positional_def)
  have nonempty: "length (simple_positional (c # cs) v) = length (c # cs)"
    for c cs and v :: "literal jsval"
    by (simp add: simple_positional_def)
  show ?thesis
    using empty nonempty
      appendArgCases_length [of simple_positional, OF empty nonempty,
        of "[[Defined (Number 0)], [Defined (Number 1)]]"
           "[Defined (Number 2), Defined (Number 3), Defined (Boolean True)]" "[]"]
      appendArgCases_length [of simple_positional, OF empty nonempty,
        of "[]" "[Defined (Number 2), Defined (Number 3), Defined (Boolean True)]" "[]"]
    by simp
qed

subsection \<open>enumerateCases (EnumeratePlan)\<close>

text \<open>
  C1.  For every strategy and configuration list, and every index \<open>k\<close> into the list whose
  configuration has a non-empty \<^verbatim>\<open>invalidCases\<close>, \<^verbatim>\<open>enumerate(strategy)(configs, k)\<close> is the left
  fold over the configurations, from the empty case list, that at slot \<open>k\<close> applies
  \<^verbatim>\<open>expandAll(strategy)\<close> to the accumulated cases and the invalid samples, and at every other
  slot calls the strategy once, with the accumulated cases and \<^verbatim>\<open>validCases[0]\<close> only.
\<close>

theorem enumerateCases_single_faulted:
  assumes "k < length configs"
    and "invalidCases (configs ! k) = Some faulted"
    and "faulted \<noteq> []"
  shows "enumerateCases strategy configs (Some (Num (real k))) trace
         = Inr (foldl (\<lambda>(accumulated, tr) (j, conf).
                         if j = k then appendArgCases strategy accumulated faulted tr
                         else invoke strategy accumulated (first (validCases conf)) tr)
                      ([], trace) (enumerate 0 configs))"
  using assms by (rule single_faulted_run)

theorem enumerateCases_single_faulted_witness:
  "(1::nat) < length pinning_example
   \<and> invalidCases (pinning_example ! 1) = Some [Defined (Number 3)]
   \<and> [Defined (Number 3)] \<noteq> ([] :: literal jsval list)
   \<and> enumerateCases simple_positional pinning_example (Some (Num (real (1::nat)))) []
     = Inr (foldl (\<lambda>(accumulated, tr) (j, conf).
                     if j = 1 then appendArgCases simple_positional accumulated [Defined (Number 3)] tr
                     else invoke simple_positional accumulated (first (validCases conf)) tr)
                  ([], []) (enumerate 0 pinning_example))
   \<and> enumerateCases simple_positional pinning_example (Some (Num (real (1::nat)))) []
     = Inr ([[Defined (Boolean True), Defined (Number 3)]],
            [([], Defined (Boolean True)), ([[Defined (Boolean True)]], Defined (Number 3))])"
proof -
  have a: "(1::nat) < length pinning_example"
    by (simp add: pinning_example_def)
  have b: "invalidCases (pinning_example ! 1) = Some [Defined (Number 3)]"
    by (simp add: pinning_example_def)
  have c: "[Defined (Number 3)] \<noteq> ([] :: literal jsval list)"
    by simp
  note run = enumerateCases_single_faulted [OF a b c, of simple_positional "[]"]
  have "foldl (\<lambda>(accumulated, tr) (j, conf).
                     if j = 1 then appendArgCases simple_positional accumulated [Defined (Number 3)] tr
                     else invoke simple_positional accumulated (first (validCases conf)) tr)
                  ([], []) (enumerate 0 pinning_example)
        = ([[Defined (Boolean True), Defined (Number 3)]],
            [([], Defined (Boolean True)), ([[Defined (Boolean True)]], Defined (Number 3))])"
    by (simp add: pinning_example_def appendArgCases_concat invoke_def first_def
        simple_positional_def)
  with a b c run show ?thesis by simp
qed

text \<open>
  C2.  For every strategy and configuration list, with no faulted index
  \<^verbatim>\<open>enumerate(strategy)(configs)\<close> is the left fold over the configurations, from the empty case
  list, that at each slot applies \<^verbatim>\<open>expandAll(strategy)\<close> to the accumulated cases and the
  slot's \<^verbatim>\<open>validCases\<close>.
\<close>

theorem enumerateCases_all_valid:
  "enumerateCases strategy configs None trace
   = Inr (foldl (\<lambda>(accumulated, tr) conf.
                   appendArgCases strategy accumulated (validCases conf) tr)
                ([], trace) configs)"
  unfolding enumerateCases_def
  by (simp add: callback_all_valid
      reduce_foldl [where g = "\<lambda>(accumulated, tr) conf.
                                  appendArgCases strategy accumulated (validCases conf) tr"])

text \<open>The first example of the comment of \<^verbatim>\<open>enumerateCases\<close>: the result is \<^verbatim>\<open>[[true, 1]]\<close>.\<close>

theorem enumerateCases_all_valid_witness:
  "enumerateCases simple_positional all_valid_example None []
   = Inr ([[Defined (Boolean True), Defined (Number 1)]],
          [([], Defined (Boolean True)), ([[Defined (Boolean True)]], Defined (Number 1))])"
  using enumerateCases_all_valid [of simple_positional all_valid_example "[]"]
  by (simp add: all_valid_example_def appendArgCases_concat simple_positional_def)

text \<open>
  C8.  With the simple positional strategy, the configurations
  \<^verbatim>\<open>[{validCases:[true], invalidCases:[false, 0]}, {validCases:[1, 2], invalidCases:[3]}]\<close>
  (whatever their names and optional flags) and faulted index 0, the result is exactly
  \<^verbatim>\<open>[[false, 1], [0, 1]]\<close>: the second argument is pinned to 1, and 2 occurs in no case.  The
  strategy is called three times: with \<^verbatim>\<open>false\<close>, with \<^verbatim>\<open>0\<close> and with \<^verbatim>\<open>1\<close>.
\<close>

theorem enumerateCases_pinning_scenario:
  "enumerateCases simple_positional
     [\<lparr>name = na, validCases = [Defined (Boolean True)],
       invalidCases = Some [Defined (Boolean False), Defined (Number 0)], optional = oa\<rparr>,
      \<lparr>name = nb, validCases = [Defined (Number 1), Defined (Number 2)],
       invalidCases = Some [Defined (Number 3)], optional = ob\<rparr>]
     (Some (Num 0)) []
   = Inr ([[Defined (Boolean False), Defined (Number 1)], [Defined (Number 0), Defined (Number 1)]],
          [([], Defined (Boolean False)), ([], Defined (Number 0)),
           ([[Defined (Boolean False)], [Defined (Number 0)]], Defined (Number 1))])
   \<and> Defined (Number 2) \<notin> set (concat
         [[Defined (Boolean False), Defined (Number 1)], [Defined (Number 0), Defined (Number 1)]])"
  by (simp add: enumerateCases_def callback_def strict_eq_def appendArgCases_concat invoke_def
      first_def simple_positional_def)

text \<open>The third example of the comment of \<^verbatim>\<open>enumerateCases\<close>, names included.\<close>

theorem enumerateCases_pinning_scenario_witness:
  "enumerateCases simple_positional pinning_example (Some (Num 0)) []
   = Inr ([[Defined (Boolean False), Defined (Number 1)], [Defined (Number 0), Defined (Number 1)]],
          [([], Defined (Boolean False)), ([], Defined (Number 0)),
           ([[Defined (Boolean False)], [Defined (Number 0)]], Defined (Number 1))])"
  using enumerateCases_pinning_scenario [of "Some ''a''" None "Some ''b''" None]
  by (simp add: pinning_example_def)

text \<open>
  C4, as the specification states it: a non-negative faulted index that is out of range
  makes \<^verbatim>\<open>enumerate\<close> return the empty list without calling the strategy.  It does not: with
  one configuration and index 1 the lookup \<^verbatim>\<open>argsConfig[1]\<close> is \<^verbatim>\<open>undefined\<close>, the guard
  \<^verbatim>\<open>invalidArgConf && \<dots>\<close> is not entered, and the fold pins the only argument to its first
  valid sample.
\<close>

theorem enumerateCases_out_of_range_counterexample:
  "element [\<lparr>name = None, validCases = [Defined (Boolean True)],
             invalidCases = Some [Defined (Boolean False)], optional = None\<rparr>] (Num 1) = None
   \<and> \<not> lt_zero (Num 1)
   \<and> enumerateCases simple_positional
        [\<lparr>name = None, validCases = [Defined (Boolean True)],
          invalidCases = Some [Defined (Boolean False)], optional = None\<rparr>] (Some (Num 1)) []
      = Inr ([[Defined (Boolean True)]], [([], Defined (Boolean True))])
   \<and> enumerateCases simple_positional
        [\<lparr>name = None, validCases = [Defined (Boolean True)],
          invalidCases = Some [Defined (Boolean False)], optional = None\<rparr>] (Some (Num 1)) []
      \<noteq> Inr ([], [])"
  by (simp add: enumerateCases_def callback_def strict_eq_def invoke_def
      first_def simple_positional_def)

text \<open>
  C4, amended.  When the faulted index is a number that is not below zero and does not
  resolve to a configuration, \<^verbatim>\<open>enumerate(strategy)(configs, faultedIndex)\<close> is the left fold
  over the configurations, from the empty case list, that at every slot calls the strategy
  once with the accumulated cases and the slot's \<^verbatim>\<open>validCases[0]\<close>: every argument is pinned
  and none is faulted.
\<close>

theorem enumerateCases_out_of_range_pins:
  assumes "element configs n = None" and "\<not> lt_zero n"
  shows "enumerateCases strategy configs (Some n) trace
         = Inr (foldl (\<lambda>(accumulated, tr) conf.
                         invoke strategy accumulated (first (validCases conf)) tr)
                      ([], trace) configs)"
proof -
  have "enumerateCases strategy configs (Some n) trace
        = reduce (callback strategy (Some n) None) ([], trace) 0 configs"
    using assms by (simp add: enumerateCases_def)
  also have "\<dots> = Inr (foldl (\<lambda>(accumulated, tr) conf.
                         invoke strategy accumulated (first (validCases conf)) tr)
                      ([], trace) configs)"
    by (rule reduce_foldl) (simp add: callback_pinned [OF assms] in_set_enumerate_eq)
  finally show ?thesis .
qed

theorem enumerateCases_out_of_range_pins_witness:
  "element pinning_example (Num 2) = None
   \<and> \<not> lt_zero (Num 2)
   \<and> enumerateCases simple_positional pinning_example (Some (Num 2)) []
     = Inr ([[Defined (Boolean True), Defined (Number 1)]],
            [([], Defined (Boolean True)), ([[Defined (Boolean True)]], Defined (Number 1))])
   \<and> element pinning_example (Num (1 / 2)) = None
   \<and> \<not> lt_zero (Num (1 / 2))
   \<and> enumerateCases simple_positional pinning_example (Some (Num (1 / 2))) []
     = Inr ([[Defined (Boolean True), Defined (Number 1)]],
            [([], Defined (Boolean True)), ([[Defined (Boolean True)]], Defined (Number 1))])"
proof -
  have a: "element pinning_example (Num 2) = None" and b: "\<not> lt_zero (Num 2)"
    by (simp_all add: pinning_example_def)
  have c: "element pinning_example (Num (1 / 2)) = None" and d: "\<not> lt_zero (Num (1 / 2))"
    by (simp_all add: pinning_example_def)
  have "foldl (\<lambda>(accumulated, tr) conf.
                 invoke simple_positional accumulated (first (validCases conf)) tr)
              ([], []) pinning_example
        = ([[Defined (Boolean True), Defined (Number 1)]],
            [([], Defined (Boolean True)), ([[Defined (Boolean True)]], Defined (Number 1))])"
    by (simp add: pinning_example_def invoke_def first_def simple_positional_def)
  with a b c d
    enumerateCases_out_of_range_pins [OF a b, of simple_positional "[]"]
    enumerateCases_out_of_range_pins [OF c d, of simple_positional "[]"]
  show ?thesis by simp
qed

text \<open>
  C5.  When the faulted index is a valid index and the configuration there has no
  \<^verbatim>\<open>invalidCases\<close>, or an empty one, \<^verbatim>\<open>enumerate\<close> returns the empty case list at once: the
  strategy is not called.
\<close>

theorem enumerateCases_vacuous_target:
  assumes "k < length configs"
    and "invalidCases (configs ! k) = None \<or> invalidCases (configs ! k) = Some []"
  shows "enumerateCases strategy configs (Some (Num (real k))) trace = Inr ([], trace)"
  using assms by (auto simp: enumerateCases_def)

theorem enumerateCases_vacuous_target_witness:
  "(1::nat) < length [\<lparr>name = None, validCases = [Defined (Boolean True)],
                        invalidCases = Some [], optional = None\<rparr>,
                      \<lparr>name = None, validCases = [Defined (Number 1)],
                        invalidCases = None, optional = None\<rparr>]
   \<and> invalidCases ([\<lparr>name = None, validCases = [Defined (Boolean True)],
                       invalidCases = Some [], optional = None\<rparr>,
                     \<lparr>name = None, validCases = [Defined (Number 1)],
                       invalidCases = None, optional = None\<rparr>] ! 1) = None
   \<and> invalidCases ([\<lparr>name = None, validCases = [Defined (Boolean True)],
                       invalidCases = Some [], optional = None\<rparr>,
                     \<lparr>name = None, validCases = [Defined (Number 1)],
                       invalidCases = None, optional = None\<rparr>] ! 0) = Some []
   \<and> enumerateCases simple_positional
        [\<lparr>name = None, validCases = [Defined (Boolean True)],
          invalidCases = Some [], optional = None\<rparr>,
         \<lparr>name = None, validCases = [Defined (Number 1)],
          invalidCases = None, optional = None\<rparr>] (Some (Num (real (1::nat)))) [] = Inr ([], [])
   \<and> enumerateCases simple_positional
        [\<lparr>name = None, validCases = [Defined (Boolean True)],
          invalidCases = Some [], optional = None\<rparr>,
         \<lparr>name = None, validCases = [Defined (Number 1)],
          invalidCases = None, optional = None\<rparr>] (Some (Num (real (0::nat)))) [] = Inr ([], [])"
  using
    enumerateCases_vacuous_target [of 1 "[\<lparr>name = None, validCases = [Defined (Boolean True)],
          invalidCases = Some [], optional = None\<rparr>,
         \<lparr>name = None, validCases = [Defined (Number 1)],
          invalidCases = None, optional = None\<rparr>]" simple_positional "[]"]
    enumerateCases_vacuous_target [of 0 "[\<lparr>name = None, validCases = [Defined (Boolean True)],
          invalidCases = Some [], optional = None\<rparr>,
         \<lparr>name = None, validCases = [Defined (Number 1)],
          invalidCases = None, optional = None\<rparr>]" simple_positional "[]"]
  by simp

text \<open>
  C6.  For every number below zero, \<^verbatim>\<open>enumerate(strategy)(configs, n)\<close> is
  \<^verbatim>\<open>enumerate(strategy)(configs)\<close>: the same result after the same calls of the strategy.
\<close>

theorem enumerateCases_negative_is_absent:
  assumes "lt_zero n"
  shows "enumerateCases strategy configs (Some n) trace
         = enumerateCases strategy configs None trace"
  using assms by (simp add: enumerateCases_def element_lt_zero callback_negative)

theorem enumerateCases_negative_is_absent_witness:
  "lt_zero (Num (- 1))
   \<and> enumerateCases simple_positional pinning_example (Some (Num (- 1))) []
     = enumerateCases simple_positional pinning_example None []
   \<and> enumerateCases simple_positional pinning_example (Some (Num (- 1))) []
     = Inr ([[Defined (Boolean True), Defined (Number 1)],
             [Defined (Boolean True), Defined (Number 2)]],
            [([], Defined (Boolean True)), ([[Defined (Boolean True)]], Defined (Number 1)),
             ([[Defined (Boolean True)]], Defined (Number 2))])"
proof -
  have neg: "lt_zero (Num (- 1))" by simp
  have "enumerateCases simple_positional pinning_example None []
     = Inr ([[Defined (Boolean True), Defined (Number 1)],
             [Defined (Boolean True), Defined (Number 2)]],
            [([], Defined (Boolean True)), ([[Defined (Boolean True)]], Defined (Number 1)),
             ([[Defined (Boolean True)]], Defined (Number 2))])"
    by (simp add: enumerateCases_def pinning_example_def callback_def strict_eq_def
        appendArgCases_concat simple_positional_def)
  with neg enumerateCases_negative_is_absent [OF neg, of simple_positional pinning_example "[]"]
  show ?thesis by simp
qed

text \<open>
  C9.  On the empty configuration list \<^verbatim>\<open>enumerate(strategy)\<close> returns the empty case list
  without calling the strategy, whatever the faulted index is: absent, or any number.
\<close>

theorem enumerateCases_no_configs:
  "enumerateCases strategy [] faultedIndex trace = Inr ([], trace)"
  by (simp add: enumerateCases_def element_Nil split: option.splits)

theorem enumerateCases_no_configs_witness:
  "enumerateCases simple_positional ([] :: literal ArgConfig list) None [] = Inr ([], [])
   \<and> enumerateCases simple_positional ([] :: literal ArgConfig list) (Some (Num 0)) [] = Inr ([], [])
   \<and> enumerateCases simple_positional ([] :: literal ArgConfig list) (Some (Num (- 1))) []
     = Inr ([], [])
   \<and> enumerateCases simple_positional ([] :: literal ArgConfig list) (Some NaN) [] = Inr ([], [])"
  using enumerateCases_no_configs [of simple_positional None "[]"]
    enumerateCases_no_configs [of simple_positional "Some (Num 0)" "[]"]
    enumerateCases_no_configs [of simple_positional "Some (Num (- 1))" "[]"]
    enumerateCases_no_configs [of simple_positional "Some NaN" "[]"]
  by simp

text \<open>
  C10.  In the single-faulted plan \<^verbatim>\<open>validCases[0]\<close> of every non-faulted configuration is
  read with no check that \<^verbatim>\<open>validCases\<close> has an element, and the plan never returns early on
  that account.  At a slot \<open>j\<close> other than the faulted one the strategy is called with the
  cases accumulated over the slots before \<open>j\<close> and the pinned value: the first element of
  the slot's \<^verbatim>\<open>validCases\<close> when there is one (the access is in bounds), and \<^verbatim>\<open>undefined\<close> when
  \<^verbatim>\<open>validCases\<close> is empty.  The result is the fold over the remaining slots, continued from
  what the strategy returned for that value.
\<close>

theorem enumerateCases_pins_first_sample:
  assumes "k < length configs"
    and "invalidCases (configs ! k) = Some faulted"
    and "faulted \<noteq> []"
    and "j < length configs"
    and "j \<noteq> k"
    and "validCases (configs ! j) = [] \<and> pinned = Undefined
         \<or> (\<exists>rest. validCases (configs ! j) = pinned # rest)"
  shows "\<exists>cases calls accumulated tr.
           enumerateCases strategy configs (Some (Num (real k))) trace = Inr (cases, trace @ calls)
           \<and> fst (foldl (\<lambda>(accumulated, tr) (j, conf).
                            if j = k then appendArgCases strategy accumulated faulted tr
                            else invoke strategy accumulated (first (validCases conf)) tr)
                         ([], trace) (enumerate 0 (take j configs)))
               = accumulated
           \<and> (accumulated, pinned) \<in> set calls
           \<and> foldl (\<lambda>(accumulated, tr) (j, conf).
                       if j = k then appendArgCases strategy accumulated faulted tr
                       else invoke strategy accumulated (first (validCases conf)) tr)
                    (strategy accumulated pinned, tr)
                    (enumerate (Suc j) (drop (Suc j) configs))
               = (cases, trace @ calls)"
proof -
  let ?step = "\<lambda>(accumulated, tr) (j, conf).
                  if j = k then appendArgCases strategy accumulated faulted tr
                  else invoke strategy accumulated (first (validCases conf)) tr"
  let ?pre = "enumerate 0 (take j configs)"
  let ?post = "enumerate (Suc j) (drop (Suc j) configs)"
  have run: "enumerateCases strategy configs (Some (Num (real k))) trace
             = Inr (foldl ?step ([], trace) (enumerate 0 configs))"
    using assms(1-3) by (rule single_faulted_run)
  obtain acc tr0 where pre: "foldl ?step ([], trace) ?pre = (acc, tr0)"
    by (cases "foldl ?step ([], trace) ?pre")
  obtain before where before: "tr0 = trace @ before"
    using fold_extends [of k strategy faulted "([], trace)" ?pre] pre by auto
  have read: "first (validCases (configs ! j)) = pinned"
    using assms(6) by (auto simp: first_def)
  have at_j: "?step (acc, tr0) (j, configs ! j)
              = (strategy acc pinned, tr0 @ [(acc, pinned)])"
    using assms(5) read by (simp add: invoke_def)
  obtain cases tr1 where post:
    "foldl ?step (strategy acc pinned, tr0 @ [(acc, pinned)]) ?post = (cases, tr1)"
    by (cases "foldl ?step (strategy acc pinned, tr0 @ [(acc, pinned)]) ?post")
  obtain after where after: "tr1 = (tr0 @ [(acc, pinned)]) @ after"
    using fold_extends
      [of k strategy faulted "(strategy acc pinned, tr0 @ [(acc, pinned)])" ?post] post
    by auto
  have whole: "foldl ?step ([], trace) (enumerate 0 configs) = (cases, tr1)"
    unfolding enumerate_split [OF assms(4)] foldl_append foldl_Cons pre at_j post ..
  have tr1: "tr1 = trace @ (before @ [(acc, pinned)] @ after)"
    using before after by simp
  have "enumerateCases strategy configs (Some (Num (real k))) trace
          = Inr (cases, trace @ (before @ [(acc, pinned)] @ after))"
    using run whole tr1 by simp
  moreover have "fst (foldl ?step ([], trace) ?pre) = acc"
    using pre by simp
  moreover have "(acc, pinned) \<in> set (before @ [(acc, pinned)] @ after)"
    by simp
  moreover have "foldl ?step (strategy acc pinned, tr0 @ [(acc, pinned)]) ?post
                 = (cases, trace @ (before @ [(acc, pinned)] @ after))"
    using post tr1 by simp
  ultimately show ?thesis by blast
qed

text \<open>
  Three arguments, the first one faulted: the second is pinned to 1, the first of its two
  valid samples, and the third, which has none, to \<^verbatim>\<open>undefined\<close>.  The result is
  \<^verbatim>\<open>[[false, 1, undefined]]\<close>.
\<close>

theorem enumerateCases_pins_first_sample_witness:
  "(0::nat) < length unsampled_example
   \<and> invalidCases (unsampled_example ! 0) = Some [Defined (Boolean False)]
   \<and> [Defined (Boolean False)] \<noteq> ([] :: literal jsval list)
   \<and> (1::nat) < length unsampled_example
   \<and> (1::nat) \<noteq> 0
   \<and> validCases (unsampled_example ! 1) = Defined (Number 1) # [Defined (Number 2)]
   \<and> (2::nat) < length unsampled_example
   \<and> (2::nat) \<noteq> 0
   \<and> validCases (unsampled_example ! 2) = []
   \<and> (\<exists>cases calls tr.
         enumerateCases simple_positional unsampled_example (Some (Num (real (0::nat)))) []
           = Inr (cases, [] @ calls)
         \<and> ([[Defined (Boolean False)]], Defined (Number 1)) \<in> set calls
         \<and> foldl (\<lambda>(accumulated, tr) (j, conf).
                     if j = 0
                     then appendArgCases simple_positional accumulated [Defined (Boolean False)] tr
                     else invoke simple_positional accumulated (first (validCases conf)) tr)
                  (simple_positional [[Defined (Boolean False)]] (Defined (Number 1)), tr)
                  (enumerate (Suc 1) (drop (Suc 1) unsampled_example))
             = (cases, [] @ calls))
   \<and> (\<exists>cases calls tr.
         enumerateCases simple_positional unsampled_example (Some (Num (real (0::nat)))) []
           = Inr (cases, [] @ calls)
         \<and> ([[Defined (Boolean False), Defined (Number 1)]], Undefined) \<in> set calls
         \<and> foldl (\<lambda>(accumulated, tr) (j, conf).
                     if j = 0
                     then appendArgCases simple_positional accumulated [Defined (Boolean False)] tr
                     else invoke simple_positional accumulated (first (validCases conf)) tr)
                  (simple_positional [[Defined (Boolean False), Defined (Number 1)]] Undefined, tr)
                  (enumerate (Suc 2) (drop (Suc 2) unsampled_example))
             = (cases, [] @ calls))
   \<and> enumerateCases simple_positional unsampled_example (Some (Num (real (0::nat)))) []
     = Inr ([[Defined (Boolean False), Defined (Number 1), Undefined]],
            [([], Defined (Boolean False)),
             ([[Defined (Boolean False)]], Defined (Number 1)),
             ([[Defined (Boolean False), Defined (Number 1)]], Undefined)])"
proof -
  let ?step = "\<lambda>(accumulated, tr) (j, conf).
                 if j = 0
                 then appendArgCases simple_positional accumulated [Defined (Boolean False)] tr
                 else invoke simple_positional accumulated (first (validCases conf)) tr"
  have a: "(0::nat) < length unsampled_example"
    and b: "invalidCases (unsampled_example ! 0) = Some [Defined (Boolean False)]"
    and c: "[Defined (Boolean False)] \<noteq> ([] :: literal jsval list)"
    and d1: "(1::nat) < length unsampled_example"
    and e1: "(1::nat) \<noteq> 0"
    and f1: "validCases (unsampled_example ! 1) = Defined (Number 1) # [Defined (Number 2)]"
    and d2: "(2::nat) < length unsampled_example"
    and e2: "(2::nat) \<noteq> 0"
    and f2: "validCases (unsampled_example ! 2) = []"
    by (simp_all add: unsampled_example_def)
  have g1: "validCases (unsampled_example ! 1) = [] \<and> Defined (Number 1) = Undefined
            \<or> (\<exists>rest. validCases (unsampled_example ! 1) = Defined (Number 1) # rest)"
    using f1 by simp
  have g2: "validCases (unsampled_example ! 2) = [] \<and> (Undefined :: literal jsval) = Undefined
            \<or> (\<exists>rest. validCases (unsampled_example ! 2) = Undefined # rest)"
    using f2 by simp
  have acc1: "fst (foldl ?step ([], []) (enumerate 0 (take 1 unsampled_example)))
              = [[Defined (Boolean False)]]"
    by (simp add: unsampled_example_def appendArgCases_concat simple_positional_def)
  have acc2: "fst (foldl ?step ([], []) (enumerate 0 (take 2 unsampled_example)))
              = [[Defined (Boolean False), Defined (Number 1)]]"
    by (simp add: unsampled_example_def appendArgCases_concat invoke_def first_def
        simple_positional_def take_Suc_conv_app_nth numeral_2_eq_2)
  have result: "enumerateCases simple_positional unsampled_example (Some (Num (real (0::nat)))) []
     = Inr ([[Defined (Boolean False), Defined (Number 1), Undefined]],
            [([], Defined (Boolean False)),
             ([[Defined (Boolean False)]], Defined (Number 1)),
             ([[Defined (Boolean False), Defined (Number 1)]], Undefined)])"
    by (simp add: enumerateCases_def unsampled_example_def callback_def strict_eq_def
        appendArgCases_concat invoke_def first_def simple_positional_def)
  have first_slot: "\<exists>cases calls tr.
         enumerateCases simple_positional unsampled_example (Some (Num (real (0::nat)))) []
           = Inr (cases, [] @ calls)
         \<and> ([[Defined (Boolean False)]], Defined (Number 1)) \<in> set calls
         \<and> foldl ?step (simple_positional [[Defined (Boolean False)]] (Defined (Number 1)), tr)
                  (enumerate (Suc 1) (drop (Suc 1) unsampled_example))
             = (cases, [] @ calls)"
    using enumerateCases_pins_first_sample [OF a b c d1 e1 g1, of simple_positional "[]"]
    unfolding acc1 by blast
  have second_slot: "\<exists>cases calls tr.
         enumerateCases simple_positional unsampled_example (Some (Num (real (0::nat)))) []
           = Inr (cases, [] @ calls)
         \<and> ([[Defined (Boolean False), Defined (Number 1)]], Undefined) \<in> set calls
         \<and> foldl ?step (simple_positional [[Defined (Boolean False), Defined (Number 1)]] Undefined, tr)
                  (enumerate (Suc 2) (drop (Suc 2) unsampled_example))
             = (cases, [] @ calls)"
    using enumerateCases_pins_first_sample [OF a b c d2 e2 g2, of simple_positional "[]"]
    unfolding acc2 by blast
  show ?thesis
    using a b c d1 e1 f1 d2 e2 f2 first_slot second_slot result by blast
qed

end
